theory Spec2Isabelle
  imports Main
begin

section \<open>Batch validation of XML files: file discovery, validation, report writing\<close>

text \<open>
  The development follows the two scripts of the repository,
  \<^verbatim>\<open>batch_validate_xml.py\<close> (version 1.0.0, CSV report) and
  \<^verbatim>\<open>validate_xml_0_0_4.py\<close> (version 0.0.4, text report). Both share the class
  \<^verbatim>\<open>GetFiles\<close>; they differ in \<^verbatim>\<open>validate_xml\<close> and \<^verbatim>\<open>write_errors\<close>.

  The libraries the scripts call (\<^verbatim>\<open>re\<close>, \<^verbatim>\<open>os\<close>, \<^verbatim>\<open>lxml.etree\<close>,
  \<^verbatim>\<open>time\<close>) are not part of the repository. What the scripts observe of them
  is collected in the record \<open>env\<close> below and stays a parameter of every definition.
\<close>

subsection \<open>The file system seen by \<^verbatim>\<open>os.path.exists\<close> and \<^verbatim>\<open>os.walk\<close>\<close>

text \<open>
  A path names nothing, a file, or a directory with its entries in the order in which
  the operating system lists them. Symbolic links to directories are not modelled.
\<close>

datatype node = File | Dir "(string \<times> node) list"

fun is_dir :: "node \<Rightarrow> bool" where
  "is_dir File = False"
| "is_dir (Dir es) = True"

text \<open>
  \<^verbatim>\<open>os.path.join(a, b)\<close> of \<^verbatim>\<open>posixpath\<close>: an absolute \<open>b\<close> replaces \<open>a\<close>;
  otherwise \<open>b\<close> is appended, after a separator unless \<open>a\<close> is empty or ends with one.
\<close>

definition join :: "string \<Rightarrow> string \<Rightarrow> string" where
  "join a b =
     (if b \<noteq> [] \<and> hd b = CHR ''/'' then b
      else if a = [] \<or> last a = CHR ''/'' then a @ b
      else a @ ''/'' @ b)"

text \<open>\<^verbatim>\<open>os.path.basename(p)\<close>: what follows the last separator of \<open>p\<close>.\<close>

definition basename :: "string \<Rightarrow> string" where
  "basename p = rev (takeWhile (\<lambda>c. c \<noteq> CHR ''/'') (rev p))"

definition dirnames_of :: "(string \<times> node) list \<Rightarrow> string list" where
  "dirnames_of es = map fst (filter (\<lambda>e. is_dir (snd e)) es)"

definition filenames_of :: "(string \<times> node) list \<Rightarrow> string list" where
  "filenames_of es = map fst (filter (\<lambda>e. \<not> is_dir (snd e)) es)"

text \<open>
  \<^verbatim>\<open>os.walk(top)\<close>, top-down: the triple \<^verbatim>\<open>(dirpath, dirnames, filenames)\<close> of
  \<open>top\<close>, then the walk of every sub-directory in listing order. A \<open>top\<close> that is not
  a directory yields nothing (the error of listing it is ignored by \<^verbatim>\<open>os.walk\<close>).
\<close>

fun walk :: "string \<Rightarrow> node \<Rightarrow> (string \<times> string list \<times> string list) list" where
  "walk dirpath File = []"
| "walk dirpath (Dir es) =
     (dirpath, dirnames_of es, filenames_of es) #
     concat (map (\<lambda>e. walk (join dirpath (fst e)) (snd e)) es)"

subsection \<open>The libraries as parameters\<close>

text \<open>Exceptions the scripts can meet.\<close>

datatype exn = ReError | OSError | XMLSyntaxError | XMLSchemaParseError

text \<open>\<^verbatim>\<open>etree.parse(path)\<close>: the file cannot be read (an \<^verbatim>\<open>OSError\<close>), it is
  not well-formed (an \<^verbatim>\<open>XMLSyntaxError\<close>), or it yields a document.\<close>

datatype 'doc parsed = IOFail | SyntaxFail | Parsed 'doc

text \<open>The entries of \<^verbatim>\<open>xsd.error_log\<close>, with the levels of \<^verbatim>\<open>lxml\<close>.\<close>

datatype level = NONE | WARNING | ERROR | FATAL

record log_entry =
  line :: nat
  column :: nat
  level :: level
  domain_name :: string
  message :: string

text \<open>
  \<^item> \<open>re_search regex\<close> is \<^verbatim>\<open>re.search(regex, _)\<close>: \<open>None\<close> when the pattern does
    not compile (\<^verbatim>\<open>re.error\<close> is raised whatever the string searched), otherwise
    the test "some part of the string matches";
  \<^item> \<open>lookup\<close> resolves a path in the file system;
  \<^item> \<open>etree_parse\<close>, \<open>XMLSchema\<close> (\<open>None\<close>: \<^verbatim>\<open>XMLSchemaParseError\<close>) and
    \<open>xsd_validate\<close> are the calls to \<^verbatim>\<open>lxml\<close>; \<open>xsd_validate\<close> gives the boolean
    of \<^verbatim>\<open>xsd.validate(doc)\<close> and the \<^verbatim>\<open>xsd.error_log\<close> read after it (a
    snapshot of the log of that one validation);
  \<^item> \<open>repr_entry\<close> is the text of one log entry; \<open>strftime\<close> is
    \<^verbatim>\<open>time.strftime\<close> at the moment of the call;
  \<^item> \<open>open_w\<close> says whether \<^verbatim>\<open>./logs\<close> can be made and the file opened for
    writing (otherwise an \<^verbatim>\<open>OSError\<close>).
\<close>

record ('doc, 'xsd) env =
  re_search :: "string \<Rightarrow> (string \<Rightarrow> bool) option"
  lookup :: "string \<Rightarrow> node option"
  etree_parse :: "string \<Rightarrow> 'doc parsed"
  XMLSchema :: "'doc \<Rightarrow> 'xsd option"
  xsd_validate :: "'xsd \<Rightarrow> 'doc \<Rightarrow> bool \<times> log_entry list"
  repr_entry :: "log_entry \<Rightarrow> string"
  strftime :: "string \<Rightarrow> string"
  open_w :: "string \<Rightarrow> bool"

subsection \<open>\<^verbatim>\<open>GetFiles\<close>\<close>

text \<open>
  The instance holds \<^verbatim>\<open>self.files\<close> and the \<^verbatim>\<open>tk.StringVar\<close> \<^verbatim>\<open>self.fname\<close>.
  The field \<open>trace\<close> records, in order, what a call does to the outside: a directory
  listed by \<^verbatim>\<open>os.walk\<close>, a \<^verbatim>\<open>self.fname.set\<close> (the progress notification) and
  a \<^verbatim>\<open>print\<close>, named by the message it shows: \<^verbatim>\<open>Looking for files: ...\<close>,
  \<^verbatim>\<open>Invalid regular expression. ...\<close> or \<^verbatim>\<open>... does not exist.\<close>
\<close>

datatype notice = LookingFor string | InvalidRegularExpression | DoesNotExist string

datatype event = Scanned string | FnameSet string | Printed notice

record getfiles =
  files :: "string list"
  fname :: string
  trace :: "event list"

definition GetFiles_init :: getfiles where
  "GetFiles_init = \<lparr>files = [], fname = [], trace = []\<rparr>"

datatype version = V1_0_0 | V0_0_4

definition emit :: "event \<Rightarrow> getfiles \<Rightarrow> getfiles" where
  "emit e s = s\<lparr>trace := trace s @ [e]\<rparr>"

text \<open>
  The inner loop \<^verbatim>\<open>for filename in filenames\<close>. Version 0.0.4 prints before the
  search, version 1.0.0 only on a match. The result says whether \<^verbatim>\<open>re.error\<close>
  left the loop, with the instance as it is at that moment.
\<close>

fun scan_filenames ::
  "version \<Rightarrow> (string \<Rightarrow> bool) option \<Rightarrow> string \<Rightarrow> string list \<Rightarrow> getfiles
   \<Rightarrow> exn option \<times> getfiles" where
  "scan_filenames v rx dirpath [] s = (None, s)"
| "scan_filenames v rx dirpath (filename # rest) s =
     (let s1 = emit (FnameSet filename) (s\<lparr>fname := filename\<rparr>);
          s2 = (if v = V0_0_4 then emit (Printed (LookingFor filename)) s1 else s1)
      in case rx of
           None \<Rightarrow> (Some ReError, s2)
         | Some found \<Rightarrow>
             if found filename then
               (let s3 = (if v = V1_0_0 then emit (Printed (LookingFor filename)) s2 else s2)
                in scan_filenames v rx dirpath rest
                     (s3\<lparr>files := files s3 @ [join dirpath filename]\<rparr>))
             else scan_filenames v rx dirpath rest s2)"

text \<open>
  The outer loop over \<^verbatim>\<open>os.walk\<close>. The generator lists a directory when its
  triple is asked for; \<^verbatim>\<open>except (re.error)\<close> prints and leaves the loop.
\<close>

fun walk_loop ::
  "version \<Rightarrow> (string \<Rightarrow> bool) option \<Rightarrow> (string \<times> string list \<times> string list) list
   \<Rightarrow> getfiles \<Rightarrow> getfiles" where
  "walk_loop v rx [] s = s"
| "walk_loop v rx ((dirpath, dirnames, filenames) # rest) s =
     (case scan_filenames v rx dirpath filenames (emit (Scanned dirpath) s) of
        (Some e, s') \<Rightarrow> emit (Printed InvalidRegularExpression) s'
      | (None, s') \<Rightarrow> walk_loop v rx rest s')"

text \<open>\<^verbatim>\<open>get_files(self, path_batch, regex)\<close>: the list returned and the instance.\<close>

definition get_files ::
  "version \<Rightarrow> ('doc, 'xsd) env \<Rightarrow> string \<Rightarrow> string \<Rightarrow> getfiles \<Rightarrow> string list \<times> getfiles" where
  "get_files v E path_batch regex s =
     (case lookup E path_batch of
        Some root \<Rightarrow>
          (let s' = walk_loop v (re_search E regex) (walk path_batch root) s
           in (files s', s'))
      | None \<Rightarrow>
          (let s' = emit (Printed (DoesNotExist path_batch)) s
           in (files s', s')))"

subsection \<open>\<^verbatim>\<open>validate_xml\<close>\<close>

text \<open>
  A call returns a value or lets an exception through. What \<^verbatim>\<open>validate_xml\<close> and
  \<^verbatim>\<open>write_errors\<close> print to the terminal is left out, and so are the failures
  inside \<^verbatim>\<open>lxml\<close> that no input file causes (an internal error of the engine, a
  lack of memory).
\<close>

datatype 'a outcome = Returned 'a | Raised exn

text \<open>
  A Python \<^verbatim>\<open>dict\<close> keeps its keys in insertion order; assigning to a key that is
  present replaces the value where the key stands.
\<close>

fun dict_set :: "('k \<times> 'v) list \<Rightarrow> 'k \<Rightarrow> 'v \<Rightarrow> ('k \<times> 'v) list" where
  "dict_set [] k v = [(k, v)]"
| "dict_set ((k', v') # d) k v =
     (if k' = k then (k, v) # d else (k', v') # dict_set d k v)"

type_synonym validation_errors = "(string \<times> string \<times> log_entry list) list"

text \<open>
  Version 1.0.0, the loop \<^verbatim>\<open>for xmlfile in files\<close>: the exception that leaves
  the loop, if any, and the dictionary as it is then.
\<close>

fun validate_loop ::
  "('doc, 'xsd) env \<Rightarrow> 'xsd \<Rightarrow> string list \<Rightarrow> validation_errors
   \<Rightarrow> exn option \<times> validation_errors" where
  "validate_loop E xsd [] d = (None, d)"
| "validate_loop E xsd (xmlfile # rest) d =
     (case etree_parse E xmlfile of
        IOFail \<Rightarrow> (Some OSError, d)
      | SyntaxFail \<Rightarrow> (Some XMLSyntaxError, d)
      | Parsed doc \<Rightarrow>
          (let (valid, error_log) = xsd_validate E xsd doc;
               state = (if valid then ''valid'' else ''invalid'')
           in validate_loop E xsd rest (dict_set d (basename xmlfile) (state, error_log))))"

text \<open>
  The \<^verbatim>\<open>try\<close> block: the schema is loaded, then the loop runs. \<^verbatim>\<open>except(OSError)\<close>
  prints and goes on to \<^verbatim>\<open>return(validation_errors)\<close>; any other exception leaves
  the function.
\<close>

definition try_block ::
  "('doc, 'xsd) env \<Rightarrow> string list \<Rightarrow> string \<Rightarrow> exn option \<times> validation_errors" where
  "try_block E fs schemaf =
     (case etree_parse E schemaf of
        IOFail \<Rightarrow> (Some OSError, [])
      | SyntaxFail \<Rightarrow> (Some XMLSyntaxError, [])
      | Parsed sdoc \<Rightarrow>
          (case XMLSchema E sdoc of
             None \<Rightarrow> (Some XMLSchemaParseError, [])
           | Some xsd \<Rightarrow> validate_loop E xsd fs []))"

definition validate_xml ::
  "('doc, 'xsd) env \<Rightarrow> string list \<Rightarrow> string \<Rightarrow> validation_errors outcome" where
  "validate_xml E fs schemaf =
     (case try_block E fs schemaf of
        (None, d) \<Rightarrow> Returned d
      | (Some e, d) \<Rightarrow> if e = OSError then Returned d else Raised e)"

text \<open>Version 0.0.4 appends every \<^verbatim>\<open>xsd.error_log\<close> to a list.\<close>

fun validate_loop_0_0_4 ::
  "('doc, 'xsd) env \<Rightarrow> 'xsd \<Rightarrow> string list \<Rightarrow> log_entry list list
   \<Rightarrow> exn option \<times> log_entry list list" where
  "validate_loop_0_0_4 E xsd [] l = (None, l)"
| "validate_loop_0_0_4 E xsd (xmlfile # rest) l =
     (case etree_parse E xmlfile of
        IOFail \<Rightarrow> (Some OSError, l)
      | SyntaxFail \<Rightarrow> (Some XMLSyntaxError, l)
      | Parsed doc \<Rightarrow>
          validate_loop_0_0_4 E xsd rest (l @ [snd (xsd_validate E xsd doc)]))"

definition try_block_0_0_4 ::
  "('doc, 'xsd) env \<Rightarrow> string list \<Rightarrow> string \<Rightarrow> exn option \<times> log_entry list list" where
  "try_block_0_0_4 E fs xsdschema =
     (case etree_parse E xsdschema of
        IOFail \<Rightarrow> (Some OSError, [])
      | SyntaxFail \<Rightarrow> (Some XMLSyntaxError, [])
      | Parsed sdoc \<Rightarrow>
          (case XMLSchema E sdoc of
             None \<Rightarrow> (Some XMLSchemaParseError, [])
           | Some xsd \<Rightarrow> validate_loop_0_0_4 E xsd fs []))"

definition validate_xml_0_0_4 ::
  "('doc, 'xsd) env \<Rightarrow> string list \<Rightarrow> string \<Rightarrow> log_entry list list outcome" where
  "validate_xml_0_0_4 E fs xsdschema =
     (case try_block_0_0_4 E fs xsdschema of
        (None, l) \<Rightarrow> Returned l
      | (Some e, l) \<Rightarrow> if e = OSError then Returned l else Raised e)"

subsection \<open>\<^verbatim>\<open>write_errors\<close>\<close>

text \<open>
  \<^verbatim>\<open>str(error_log)\<close>: the texts of the entries, one per line; the empty text for
  an empty log.
\<close>

fun join_lines :: "string list \<Rightarrow> string" where
  "join_lines [] = []"
| "join_lines [x] = x"
| "join_lines (x # y # ys) = x @ [CHR 0x0A] @ join_lines (y # ys)"

definition str_log :: "('doc, 'xsd) env \<Rightarrow> log_entry list \<Rightarrow> string" where
  "str_log E error_log = join_lines (map (repr_entry E) error_log)"

definition output_file :: "('doc, 'xsd) env \<Rightarrow> string \<Rightarrow> string \<Rightarrow> string" where
  "output_file E path_batch ext =
     join ''./logs''
       (''validate_xml-'' @ basename path_batch @ ''-'' @ strftime E ''%Y%m%d_%H%M%S'' @ ext)"

text \<open>
  Version 1.0.0: the artifact is the file name and the rows handed to
  \<^verbatim>\<open>csv_writer.writerow\<close>, in order.
\<close>

record csv_report =
  csv_name :: string
  csv_rows :: "string list list"

definition header_row :: "string list" where
  "header_row = [''filename'', ''valid'', ''error'']"

definition csv_row :: "('doc, 'xsd) env \<Rightarrow> string \<times> string \<times> log_entry list \<Rightarrow> string list" where
  "csv_row E item = [fst item, fst (snd item), str_log E (snd (snd item))]"

definition write_errors ::
  "('doc, 'xsd) env \<Rightarrow> validation_errors \<Rightarrow> string \<Rightarrow> string list \<Rightarrow> csv_report outcome" where
  "write_errors E validation_errors path_batch fs =
     (if open_w E (output_file E path_batch ''.csv'') then
        Returned \<lparr>csv_name = output_file E path_batch ''.csv'',
                  csv_rows = header_row #
                    (if length validation_errors > 0 then map (csv_row E) validation_errors
                     else [])\<rparr>
      else Raised OSError)"

text \<open>
  Version 0.0.4: the banner, one block for every log that is not empty, and the two
  numbers of the closing lines \<^verbatim>\<open>Validated succesfully\<close> and \<^verbatim>\<open>Validation errors\<close>.
\<close>

record txt_report =
  txt_name :: string
  banner :: string
  blocks :: "string list"
  validated_succesfully :: int
  validation_errors_count :: int

definition write_errors_0_0_4 ::
  "('doc, 'xsd) env \<Rightarrow> log_entry list list \<Rightarrow> string \<Rightarrow> string list \<Rightarrow> txt_report outcome" where
  "write_errors_0_0_4 E validation_errors path_batch fs =
     (if open_w E (output_file E path_batch ''.txt'') then
        Returned \<lparr>txt_name = output_file E path_batch ''.txt'',
                  banner = strftime E (''[validate_xml log generated %Y%m%dT%H:%M:%S]'' @ [CHR 0x0A, CHR 0x0A]),
                  blocks = map (str_log E) (filter (\<lambda>error. length error > 0) validation_errors),
                  validated_succesfully = int (length fs) - int (length validation_errors),
                  validation_errors_count = int (length validation_errors)\<rparr>
      else Raised OSError)"

subsection \<open>\<^verbatim>\<open>MainApplication.validate\<close>\<close>

text \<open>
  One press of the button: \<open>var\<close> is the folder entry, \<open>re1\<close> the filter entry,
  \<open>sch_loc\<close> the schema entry, \<open>g\<close> the \<^verbatim>\<open>GetFiles\<close> instance made when the window
  was built. The report written, or the exception that ends the callback, comes with
  the instance after the call.
\<close>

definition MainApplication_validate ::
  "('doc, 'xsd) env \<Rightarrow> string \<Rightarrow> string \<Rightarrow> string \<Rightarrow> getfiles \<Rightarrow> csv_report outcome \<times> getfiles" where
  "MainApplication_validate E var re1 sch_loc g =
     (let g' = snd (get_files V1_0_0 E var re1 g)
      in case validate_xml E (files g') sch_loc of
           Raised e \<Rightarrow> (Raised e, g')
         | Returned validation_errors \<Rightarrow> (write_errors E validation_errors var (files g'), g'))"

definition MainApplication_validate_0_0_4 ::
  "('doc, 'xsd) env \<Rightarrow> string \<Rightarrow> string \<Rightarrow> string \<Rightarrow> getfiles \<Rightarrow> txt_report outcome \<times> getfiles" where
  "MainApplication_validate_0_0_4 E var re1 sch_loc g =
     (let g' = snd (get_files V0_0_4 E var re1 g)
      in case validate_xml_0_0_4 E (files g') sch_loc of
           Raised e \<Rightarrow> (Raised e, g')
         | Returned validation_errors \<Rightarrow>
             (write_errors_0_0_4 E validation_errors var (files g'), g'))"

subsection \<open>What the specification speaks of\<close>

text \<open>
  A chain of names leads from a node to a file: every name but the last is a
  sub-directory of the one before, the last is a file there. The path of the file is
  the root joined with the chain, its base filename the last name.
\<close>

fun is_file_at :: "node \<Rightarrow> string list \<Rightarrow> bool" where
  "is_file_at File cs = (cs = [])"
| "is_file_at (Dir es) [] = False"
| "is_file_at (Dir es) (c # cs) = (\<exists>e \<in> set es. fst e = c \<and> is_file_at (snd e) cs)"

definition path_of :: "string \<Rightarrow> string list \<Rightarrow> string" where
  "path_of root cs = foldl join root cs"

text \<open>The walk of an existing root under a pattern that does not compile.\<close>

definition no_files :: "string \<times> string list \<times> string list \<Rightarrow> bool" where
  "no_files w = (snd (snd w) = [])"

definition trace_invalid ::
  "version \<Rightarrow> (string \<times> string list \<times> string list) list \<Rightarrow> event list" where
  "trace_invalid v ws =
     map (\<lambda>w. Scanned (fst w)) (takeWhile no_files ws) @
     (case dropWhile no_files ws of
        [] \<Rightarrow> []
      | w # rest \<Rightarrow>
          [Scanned (fst w), FnameSet (hd (snd (snd w)))] @
          (if v = V0_0_4 then [Printed (LookingFor (hd (snd (snd w))))] else []) @
          [Printed InvalidRegularExpression])"

text \<open>The progress notifications among the events.\<close>

fun is_notification :: "event \<Rightarrow> bool" where
  "is_notification (FnameSet f) = True"
| "is_notification e = False"

text \<open>Several calls on one instance, each with its surroundings, folder and pattern.\<close>

fun get_files_calls ::
  "version \<Rightarrow> (('doc, 'xsd) env \<times> string \<times> string) list \<Rightarrow> getfiles \<Rightarrow> getfiles" where
  "get_files_calls v [] s = s"
| "get_files_calls v ((E, path_batch, regex) # cs) s =
     get_files_calls v cs (snd (get_files v E path_batch regex s))"

text \<open>
  The result the specification gives a file that parses: its base filename, the status
  \<open>valid\<close> exactly when the log holds no entry of level error or fatal, and the log.
\<close>

definition invalidating :: "log_entry \<Rightarrow> bool" where
  "invalidating e = (level e = ERROR \<or> level e = FATAL)"

definition spec_status :: "log_entry list \<Rightarrow> string" where
  "spec_status error_log = (if filter invalidating error_log = [] then ''valid'' else ''invalid'')"

definition spec_result ::
  "('doc, 'xsd) env \<Rightarrow> 'xsd \<Rightarrow> string \<Rightarrow> string \<times> string \<times> log_entry list" where
  "spec_result E xsd xmlfile =
     (case etree_parse E xmlfile of
        Parsed doc \<Rightarrow>
          (basename xmlfile, spec_status (snd (xsd_validate E xsd doc)), snd (xsd_validate E xsd doc))
      | _ \<Rightarrow> (basename xmlfile, ''unreadable'', []))"

definition parses :: "('doc, 'xsd) env \<Rightarrow> string \<Rightarrow> bool" where
  "parses E xmlfile = (case etree_parse E xmlfile of Parsed doc \<Rightarrow> True | _ \<Rightarrow> False)"

text \<open>
  The validation engine agrees with its log on a file: \<^verbatim>\<open>xsd.validate\<close> answers
  true exactly when the log it leaves holds no entry of level error or fatal.
\<close>

definition engine_agrees :: "('doc, 'xsd) env \<Rightarrow> 'xsd \<Rightarrow> string \<Rightarrow> bool" where
  "engine_agrees E xsd xmlfile =
     (case etree_parse E xmlfile of
        Parsed doc \<Rightarrow>
          fst (xsd_validate E xsd doc) = (filter invalidating (snd (xsd_validate E xsd doc)) = [])
      | _ \<Rightarrow> True)"

text \<open>Storing a result under its name, as the assignment to the dictionary does.\<close>

definition store ::
  "validation_errors \<Rightarrow> string \<times> string \<times> log_entry list \<Rightarrow> validation_errors" where
  "store d r = dict_set d (fst r) (snd r)"

text \<open>
  The paths one walk adds to \<^verbatim>\<open>self.files\<close>, in the order of the walk: in every
  directory listed, the files whose name the pattern finds, joined to the directory.
\<close>

definition matches_of ::
  "(string \<Rightarrow> bool) option \<Rightarrow> (string \<times> string list \<times> string list) list \<Rightarrow> string list" where
  "matches_of rx ws =
     (case rx of
        None \<Rightarrow> []
      | Some found \<Rightarrow> concat (map (\<lambda>w. map (join (fst w)) (filter found (snd (snd w)))) ws))"

definition located :: "('doc, 'xsd) env \<Rightarrow> string \<Rightarrow> string \<Rightarrow> string list" where
  "located E path_batch regex =
     (case lookup E path_batch of
        None \<Rightarrow> []
      | Some root \<Rightarrow> matches_of (re_search E regex) (walk path_batch root))"

text \<open>What one call of a sequence finds, from its surroundings, folder and pattern.\<close>

definition located_call :: "('doc, 'xsd) env \<times> string \<times> string \<Rightarrow> string list" where
  "located_call c = located (fst c) (fst (snd c)) (snd (snd c))"

subsection \<open>A small world for the examples\<close>

text \<open>
  The pattern \<^verbatim>\<open>(\<close> does not compile. The other patterns of the examples are
  made of letters only, and \<^verbatim>\<open>re.search\<close> finds such a pattern exactly when it
  occurs in the string.
\<close>

fun occurs_in :: "string \<Rightarrow> string \<Rightarrow> bool" where
  "occurs_in p [] = (p = [])"
| "occurs_in p (c # cs) = (take (length p) (c # cs) = p \<or> occurs_in p cs)"

definition sample_tree :: node where
  "sample_tree =
     Dir [(''a.xml'', File),
          (''xml'', Dir [(''notes.txt'', File), (''a.xml'', File)]),
          (''c_mets.xml'', File),
          (''broken.xml'', File)]"

definition sample_entry :: log_entry where
  "sample_entry = \<lparr>line = 3, column = 0, level = ERROR,
                    domain_name = ''SCHEMASV'', message = ''Element b: not expected.''\<rparr>"

definition sample_env :: "(string, string) env" where
  "sample_env =
     \<lparr>re_search = (\<lambda>regex. if regex = ''('' then None else Some (occurs_in regex)),
      lookup = (\<lambda>p. if p = ''/batch'' then Some sample_tree else None),
      etree_parse = (\<lambda>p.
         if p = ''/s.xsd'' then Parsed ''schema''
         else if p = ''/notes.xml'' then Parsed ''letter''
         else if p = ''/torn.xsd'' then SyntaxFail
         else if p = ''/batch/a.xml'' then Parsed ''good''
         else if p = ''/batch/xml/a.xml'' then Parsed ''wrong''
         else if p = ''/batch/c_mets.xml'' then Parsed ''good''
         else if p = ''/batch/broken.xml'' then SyntaxFail
         else IOFail),
      XMLSchema = (\<lambda>d. if d = ''schema'' then Some ''xsd'' else None),
      xsd_validate = (\<lambda>x d. if d = ''good'' then (True, []) else (False, [sample_entry])),
      repr_entry = message,
      strftime = (\<lambda>f. if f = ''%Y%m%d_%H%M%S'' then ''20200327_120000''
                       else ''[validate_xml log generated 20200327T12:00:00]'' @ [CHR 0x0A, CHR 0x0A]),
      open_w = (\<lambda>p. True)\<rparr>"


section \<open>Properties\<close>

subsection \<open>\<^verbatim>\<open>GetFiles.get_files\<close>\<close>

lemma emit_simps [simp]:
  "files (emit e s) = files s" "fname (emit e s) = fname s" "trace (emit e s) = trace s @ [e]"
  by (simp_all add: emit_def)

lemma scan_filenames_files:
  "files (snd (scan_filenames v rx d fs s)) =
     files s @ (case rx of None \<Rightarrow> [] | Some found \<Rightarrow> map (join d) (filter found fs))"
  by (induction fs arbitrary: s) (auto simp: Let_def split: option.splits)

lemma scan_filenames_exn:
  "fst (scan_filenames v rx d fs s) = (if rx = None \<and> fs \<noteq> [] then Some ReError else None)"
  by (induction fs arbitrary: s) (auto simp: Let_def split: option.splits)

lemma walk_loop_files: "files (walk_loop v rx ws s) = files s @ matches_of rx ws"
proof (induction ws arbitrary: s)
  case Nil
  show ?case by (simp add: matches_of_def split: option.splits)
next
  case (Cons w ws)
  obtain d dn fs where w: "w = (d, dn, fs)" by (cases w)
  obtain x s' where r: "scan_filenames v rx d fs (emit (Scanned d) s) = (x, s')"
    by (cases "scan_filenames v rx d fs (emit (Scanned d) s)")
  have f: "files s' = files s @ (case rx of None \<Rightarrow> [] | Some found \<Rightarrow> map (join d) (filter found fs))"
    using scan_filenames_files [of v rx d fs "emit (Scanned d) s"] r by simp
  have x: "x = (if rx = None \<and> fs \<noteq> [] then Some ReError else None)"
    using scan_filenames_exn [of v rx d fs "emit (Scanned d) s"] r by simp
  show ?case
  proof (cases x)
    case None
    then show ?thesis using w r f Cons.IH [of s']
      by (simp add: matches_of_def split: option.splits)
  next
    case (Some e)
    then have "rx = None" using x by (simp split: if_splits)
    then show ?thesis using w r f Some by (simp add: matches_of_def)
  qed
qed

lemma get_files_returns: "fst (get_files v E p r s) = files (snd (get_files v E p r s))"
  by (simp add: get_files_def Let_def split: option.splits)

lemma get_files_files: "files (snd (get_files v E p r s)) = files s @ located E p r"
  by (simp add: get_files_def located_def Let_def walk_loop_files split: option.splits)

lemma get_files_calls_files:
  "files (get_files_calls v cs s) = files s @ concat (map located_call cs)"
proof (induction cs arbitrary: s)
  case Nil show ?case by simp
next
  case (Cons c cs)
  obtain E p r where c: "c = (E, p, r)" by (cases c)
  show ?case using Cons.IH [of "snd (get_files v E p r s)"]
    by (simp add: c get_files_files located_call_def)
qed

text \<open>
  C10. The list of matches lives as long as the instance: \<^verbatim>\<open>get_files\<close> appends
  what the walk of this call finds to \<^verbatim>\<open>self.files\<close> and never clears it. So the
  list returned by a call that follows the calls \<open>cs\<close> on a new instance is the
  concatenation of the matches of each of these calls, the last included, and a second
  call on the same unchanged folder returns each match twice. The matches of a call are
  given by \<open>located\<close>, from the walk and the pattern alone.
\<close>

theorem get_files_accumulates:
  "fst (get_files v E path_batch regex s) = files s @ located E path_batch regex \<and>
   files (snd (get_files v E path_batch regex s)) = files s @ located E path_batch regex \<and>
   fst (get_files v E path_batch regex (get_files_calls v cs GetFiles_init)) =
     concat (map located_call (cs @ [(E, path_batch, regex)])) \<and>
   fst (get_files v E path_batch regex (snd (get_files v E path_batch regex GetFiles_init))) =
     located E path_batch regex @ located E path_batch regex"
  by (simp add: get_files_returns get_files_files get_files_calls_files
      located_call_def GetFiles_init_def)

text \<open>Two calls with the pattern \<^verbatim>\<open>mets\<close> on the same folder, in both versions.\<close>

theorem get_files_accumulates_witness:
  "located sample_env ''/batch'' ''mets'' = [''/batch/c_mets.xml''] \<and>
   fst (get_files V1_0_0 sample_env ''/batch'' ''mets''
         (get_files_calls V1_0_0 [(sample_env, ''/batch'', ''mets'')] GetFiles_init)) =
     [''/batch/c_mets.xml'', ''/batch/c_mets.xml''] \<and>
   fst (get_files V0_0_4 sample_env ''/batch'' ''mets''
         (snd (get_files V0_0_4 sample_env ''/batch'' ''mets'' GetFiles_init))) =
     [''/batch/c_mets.xml'', ''/batch/c_mets.xml'']"
proof -
  have l: "located sample_env ''/batch'' ''mets'' = [''/batch/c_mets.xml'']"
    by (simp add: located_def matches_of_def sample_env_def sample_tree_def
        dirnames_of_def filenames_of_def join_def)
  show ?thesis
    using l
      get_files_accumulates [of V1_0_0 sample_env "''/batch''" "''mets''" GetFiles_init
        "[(sample_env, ''/batch'', ''mets'')]"]
      get_files_accumulates [of V0_0_4 sample_env "''/batch''" "''mets''" GetFiles_init "[]"]
    by (simp add: located_call_def)
qed

lemma filenames_of_iff: "f \<in> set (filenames_of es) \<longleftrightarrow> (\<exists>e \<in> set es. fst e = f \<and> snd e = File)"
proof -
  have "\<And>n. (\<not> is_dir n) = (n = File)" by (case_tac n) simp_all
  then show ?thesis by (auto simp: filenames_of_def)
qed

lemma walk_files:
  "(\<exists>dn fs. (d, dn, fs) \<in> set (walk dirpath nd) \<and> f \<in> set fs) \<longleftrightarrow>
   (\<exists>ds. d = foldl join dirpath ds \<and> is_file_at nd (ds @ [f]))"
proof (induction dirpath nd arbitrary: d rule: walk.induct)
  case (1 dirpath)
  show ?case by simp
next
  case (2 dirpath es)
  have L: "(\<exists>dn fs. (d, dn, fs) \<in> set (walk dirpath (Dir es)) \<and> f \<in> set fs) \<longleftrightarrow>
      (d = dirpath \<and> f \<in> set (filenames_of es)) \<or>
      (\<exists>e \<in> set es. \<exists>dn fs. (d, dn, fs) \<in> set (walk (join dirpath (fst e)) (snd e)) \<and> f \<in> set fs)"
    by auto
  have R: "(\<exists>ds. d = foldl join dirpath ds \<and> is_file_at (Dir es) (ds @ [f])) \<longleftrightarrow>
      (d = dirpath \<and> is_file_at (Dir es) [f]) \<or>
      (\<exists>c ds. d = foldl join (join dirpath c) ds \<and> is_file_at (Dir es) (c # ds @ [f]))"
  proof
    assume "\<exists>ds. d = foldl join dirpath ds \<and> is_file_at (Dir es) (ds @ [f])"
    then obtain ds where ds: "d = foldl join dirpath ds" "is_file_at (Dir es) (ds @ [f])" by blast
    show "(d = dirpath \<and> is_file_at (Dir es) [f]) \<or>
      (\<exists>c ds. d = foldl join (join dirpath c) ds \<and> is_file_at (Dir es) (c # ds @ [f]))"
    proof (cases ds)
      case Nil
      then show ?thesis using ds by simp
    next
      case (Cons c ds')
      then have "d = foldl join (join dirpath c) ds' \<and> is_file_at (Dir es) (c # ds' @ [f])"
        using ds by simp
      then show ?thesis by blast
    qed
  next
    assume "(d = dirpath \<and> is_file_at (Dir es) [f]) \<or>
      (\<exists>c ds. d = foldl join (join dirpath c) ds \<and> is_file_at (Dir es) (c # ds @ [f]))"
    then show "\<exists>ds. d = foldl join dirpath ds \<and> is_file_at (Dir es) (ds @ [f])"
    proof
      assume "d = dirpath \<and> is_file_at (Dir es) [f]"
      then have "d = foldl join dirpath [] \<and> is_file_at (Dir es) ([] @ [f])" by simp
      then show ?thesis by blast
    next
      assume "\<exists>c ds. d = foldl join (join dirpath c) ds \<and> is_file_at (Dir es) (c # ds @ [f])"
      then obtain c ds where "d = foldl join (join dirpath c) ds" "is_file_at (Dir es) (c # ds @ [f])"
        by blast
      then have "d = foldl join dirpath (c # ds) \<and> is_file_at (Dir es) ((c # ds) @ [f])" by simp
      then show ?thesis by blast
    qed
  qed
  have here: "f \<in> set (filenames_of es) \<longleftrightarrow> is_file_at (Dir es) [f]"
  proof -
    have "\<And>n. is_file_at n [] = (n = File)" by (case_tac n) simp_all
    then show ?thesis by (simp add: filenames_of_iff)
  qed
  have below: "(\<exists>e \<in> set es. \<exists>dn fs. (d, dn, fs) \<in> set (walk (join dirpath (fst e)) (snd e)) \<and> f \<in> set fs)
      \<longleftrightarrow> (\<exists>c ds. d = foldl join (join dirpath c) ds \<and> is_file_at (Dir es) (c # ds @ [f]))"
    using "2.IH" by (simp) blast
  show ?case unfolding L R here below ..
qed

lemma set_matches_of:
  "set (matches_of (Some found) ws) =
     {join d f | d f. (\<exists>dn fs. (d, dn, fs) \<in> set ws \<and> f \<in> set fs) \<and> found f}"
  by (auto simp: matches_of_def) force


lemma is_file_at_Dir_nonempty: "is_file_at (Dir es) cs \<Longrightarrow> cs \<noteq> []"
  by (cases cs) simp_all

lemma set_located:
  assumes "lookup E D = Some (Dir es)" and "re_search E P = Some found"
  shows "set (located E D P) = {path_of D cs | cs. is_file_at (Dir es) cs \<and> found (last cs)}"
proof -
  have "located E D P = matches_of (Some found) (walk D (Dir es))"
    using assms by (simp add: located_def)
  then have "set (located E D P) =
      {join d f | d f. (\<exists>ds. d = foldl join D ds \<and> is_file_at (Dir es) (ds @ [f])) \<and> found f}"
    by (simp only: set_matches_of walk_files)
  also have "\<dots> = {path_of D cs | cs. is_file_at (Dir es) cs \<and> found (last cs)}"
  proof (rule set_eqI, rule iffI)
    fix p
    assume "p \<in> {join d f | d f. (\<exists>ds. d = foldl join D ds \<and> is_file_at (Dir es) (ds @ [f])) \<and> found f}"
    then obtain ds f where "p = join (foldl join D ds) f" "is_file_at (Dir es) (ds @ [f])" "found f"
      by blast
    then have "p = path_of D (ds @ [f]) \<and> is_file_at (Dir es) (ds @ [f]) \<and> found (last (ds @ [f]))"
      by (simp add: path_of_def)
    then show "p \<in> {path_of D cs | cs. is_file_at (Dir es) cs \<and> found (last cs)}" by blast
  next
    fix p
    assume "p \<in> {path_of D cs | cs. is_file_at (Dir es) cs \<and> found (last cs)}"
    then obtain cs where cs: "p = path_of D cs" "is_file_at (Dir es) cs" "found (last cs)" by blast
    then have ne: "cs \<noteq> []" using is_file_at_Dir_nonempty by blast
    then have split: "cs = butlast cs @ [last cs]" by simp
    have "p = join (foldl join D (butlast cs)) (last cs)"
      using cs(1) split by (metis foldl_Cons foldl_Nil foldl_append path_of_def)
    moreover have "is_file_at (Dir es) (butlast cs @ [last cs])" using cs(2) split by simp
    ultimately show "p \<in> {join d f | d f. (\<exists>ds. d = foldl join D ds \<and> is_file_at (Dir es) (ds @ [f])) \<and> found f}"
      using cs(3) by blast
  qed
  finally show ?thesis .
qed

lemmas sample_defs = sample_env_def sample_tree_def dirnames_of_def filenames_of_def join_def
  emit_def GetFiles_init_def Let_def

text \<open>
  C3, as the code has it. For an existing root directory \<open>D\<close> and a pattern \<open>P\<close> that
  compiles, a call adds to the list of the instance exactly the files under \<open>D\<close>, at
  any depth, whose base filename (the last name of the chain, not the path) the search
  of \<open>P\<close> finds, and no other path; the search is \<^verbatim>\<open>re.search\<close>, which looks for a
  match anywhere in the name. The list returned is the list the instance held before,
  followed by these files: on a new instance, these files alone.
\<close>

theorem get_files_locates:
  assumes "lookup E D = Some (Dir es)" and "re_search E P = Some found"
  shows "fst (get_files v E D P s) = files s @ located E D P \<and>
         fst (get_files v E D P GetFiles_init) = located E D P \<and>
         set (located E D P) = {path_of D cs | cs. is_file_at (Dir es) cs \<and> found (last cs)}"
  using set_located [OF assms]
  by (simp add: get_files_returns get_files_files GetFiles_init_def)

text \<open>The pattern \<^verbatim>\<open>mets\<close> finds \<^verbatim>\<open>c_mets.xml\<close>, in the middle of the name.\<close>

theorem get_files_locates_witness:
  "lookup sample_env ''/batch'' = Some sample_tree \<and>
   re_search sample_env ''mets'' = Some (occurs_in ''mets'') \<and>
   fst (get_files V1_0_0 sample_env ''/batch'' ''mets'' GetFiles_init) = [''/batch/c_mets.xml''] \<and>
   set [''/batch/c_mets.xml''] =
     {path_of ''/batch'' cs | cs. is_file_at sample_tree cs \<and> occurs_in ''mets'' (last cs)}"
proof -
  have l: "lookup sample_env ''/batch'' = Some sample_tree" by (simp add: sample_env_def)
  have r: "re_search sample_env ''mets'' = Some (occurs_in ''mets'')" by (simp add: sample_env_def)
  have e: "located sample_env ''/batch'' ''mets'' = [''/batch/c_mets.xml'']"
    by (simp add: located_def matches_of_def sample_defs)
  show ?thesis
    using l r e get_files_locates [of sample_env "''/batch''" _ "''mets''" "occurs_in ''mets''"
        V1_0_0 GetFiles_init]
    unfolding sample_tree_def by (simp add: GetFiles_init_def)
qed

text \<open>
  C3 as stated fails on an instance that has been used: after a call with the pattern
  \<^verbatim>\<open>mets\<close>, a call with the pattern \<^verbatim>\<open>broken\<close> also returns
  \<^verbatim>\<open>/batch/c_mets.xml\<close>, whose name that pattern does not find.
\<close>

theorem get_files_locates_counterexample:
  "\<not> occurs_in ''broken'' (basename ''/batch/c_mets.xml'') \<and>
   fst (get_files V1_0_0 sample_env ''/batch'' ''broken''
         (snd (get_files V1_0_0 sample_env ''/batch'' ''mets'' GetFiles_init))) =
     [''/batch/c_mets.xml'', ''/batch/broken.xml'']"
  by (simp add: get_files_def basename_def sample_defs)

text \<open>
  The pattern \<^verbatim>\<open>xml\<close> leaves out \<^verbatim>\<open>/batch/xml/notes.txt\<close>, whose path holds
  \<^verbatim>\<open>xml\<close> but whose name does not.
\<close>

lemma get_files_base_filename_only:
  "fst (get_files V1_0_0 sample_env ''/batch'' ''xml'' GetFiles_init) =
     [''/batch/a.xml'', ''/batch/c_mets.xml'', ''/batch/broken.xml'', ''/batch/xml/a.xml'']"
  by (simp add: get_files_def sample_defs)


lemma scan_filenames_invalid:
  "fs \<noteq> [] \<Longrightarrow> scan_filenames v None d fs s =
     (Some ReError,
      (if v = V0_0_4 then emit (Printed (LookingFor (hd fs))) else id)
        (emit (FnameSet (hd fs)) (s\<lparr>fname := hd fs\<rparr>)))"
  by (cases fs) (simp_all add: Let_def)

lemma walk_loop_invalid_trace:
  "trace (walk_loop v None ws s) = trace s @ trace_invalid v ws"
proof (induction ws arbitrary: s)
  case Nil
  show ?case by (simp add: trace_invalid_def)
next
  case (Cons w ws)
  obtain d dn fs where w: "w = (d, dn, fs)" by (cases w)
  show ?case
  proof (cases "fs = []")
    case True
    then show ?thesis using Cons.IH [of "emit (Scanned d) s"]
      by (simp add: w trace_invalid_def no_files_def)
  next
    case False
    then show ?thesis
      by (simp add: w trace_invalid_def no_files_def scan_filenames_invalid)
  qed
qed

lemma notifications_invalid:
  "length (filter is_notification (trace_invalid v ws)) = (if filter (\<lambda>w. \<not> no_files w) ws = [] then 0 else 1)"
proof -
  have a: "filter is_notification (map (\<lambda>w. Scanned (fst w)) xs) = []" for xs :: "(string \<times> string list \<times> string list) list"
    by (induction xs) simp_all
  have b: "(dropWhile no_files ws = []) = (filter (\<lambda>w. \<not> no_files w) ws = [])"
    by (induction ws) simp_all
  show ?thesis
  proof (cases "dropWhile no_files ws")
    case Nil
    moreover from Nil have "filter (\<lambda>w. \<not> no_files w) ws = []" using b by simp
    ultimately show ?thesis by (simp add: trace_invalid_def a del: dropWhile_eq_Nil_conv)
  next
    case (Cons w rest)
    moreover from Cons have "filter (\<lambda>w. \<not> no_files w) ws \<noteq> []" using b by simp
    ultimately show ?thesis by (simp add: trace_invalid_def a del: dropWhile_eq_Nil_conv)
  qed
qed

text \<open>
  C4, as the code has it. A pattern that does not compile is met at the first search,
  inside the walk. With an existing root, \<^verbatim>\<open>get_files\<close> returns the list of the
  instance with nothing added; it lists the directories in walk order up to the first
  one that holds a file, sets \<^verbatim>\<open>fname\<close> once, to the first file there, prints the
  message and stops. When no directory holds a file, all are listed and nothing is
  notified or printed.
\<close>

theorem get_files_invalid_pattern:
  assumes "re_search E regex = None" and "lookup E path_batch = Some root"
  shows "fst (get_files v E path_batch regex s) = files s \<and>
         files (snd (get_files v E path_batch regex s)) = files s \<and>
         trace (snd (get_files v E path_batch regex s)) =
           trace s @ trace_invalid v (walk path_batch root) \<and>
         length (filter is_notification (trace_invalid v (walk path_batch root))) =
           (if filter (\<lambda>w. \<not> no_files w) (walk path_batch root) = [] then 0 else 1)"
proof -
  have "files (snd (get_files v E path_batch regex s)) = files s"
    using assms by (simp add: get_files_files located_def matches_of_def)
  moreover have "trace (snd (get_files v E path_batch regex s)) =
      trace s @ trace_invalid v (walk path_batch root)"
    using assms by (simp add: get_files_def Let_def walk_loop_invalid_trace)
  ultimately show ?thesis
    by (simp add: get_files_returns notifications_invalid)
qed

text \<open>Version 0.0.4 on the pattern \<^verbatim>\<open>(\<close>.\<close>

theorem get_files_invalid_pattern_witness:
  "re_search sample_env ''('' = None \<and> lookup sample_env ''/batch'' = Some sample_tree \<and>
   fst (get_files V0_0_4 sample_env ''/batch'' ''('' GetFiles_init) = [] \<and>
   trace (snd (get_files V0_0_4 sample_env ''/batch'' ''('' GetFiles_init)) =
     [Scanned ''/batch'', FnameSet ''a.xml'', Printed (LookingFor ''a.xml''),
      Printed InvalidRegularExpression]"
proof -
  have r: "re_search sample_env ''('' = None" by (simp add: sample_env_def)
  have l: "lookup sample_env ''/batch'' = Some sample_tree" by (simp add: sample_env_def)
  have t: "trace_invalid V0_0_4 (walk ''/batch'' sample_tree) =
      [Scanned ''/batch'', FnameSet ''a.xml'', Printed (LookingFor ''a.xml''),
       Printed InvalidRegularExpression]"
    by (simp add: trace_invalid_def no_files_def sample_defs)
  show ?thesis
    using get_files_invalid_pattern [OF r l, of V0_0_4 GetFiles_init] r l t
    by (simp add: GetFiles_init_def)
qed

text \<open>
  C4 as stated fails: with the pattern \<^verbatim>\<open>(\<close>, the root has been listed and one
  progress notification emitted before the message.
\<close>

theorem get_files_invalid_pattern_counterexample:
  "re_search sample_env ''('' = None \<and>
   trace (snd (get_files V1_0_0 sample_env ''/batch'' ''('' GetFiles_init)) =
     [Scanned ''/batch'', FnameSet ''a.xml'', Printed InvalidRegularExpression]"
  by (simp add: get_files_def sample_defs)

text \<open>
  C9, as the code has it. For a root that does not exist, \<^verbatim>\<open>get_files\<close> prints
  that it does not exist, lists no directory, notifies nothing, adds no file, and
  returns the list of the instance as it was: empty for a new instance.
\<close>

theorem get_files_missing_root:
  assumes "lookup E path_batch = None"
  shows "fst (get_files v E path_batch regex s) = files s \<and>
         files (snd (get_files v E path_batch regex s)) = files s \<and>
         fname (snd (get_files v E path_batch regex s)) = fname s \<and>
         trace (snd (get_files v E path_batch regex s)) =
           trace s @ [Printed (DoesNotExist path_batch)]"
  using assms by (simp add: get_files_def Let_def)

text \<open>A new instance on a root that does not exist.\<close>

theorem get_files_missing_root_witness:
  "lookup sample_env ''/nowhere'' = None \<and>
   fst (get_files V1_0_0 sample_env ''/nowhere'' ''mets'' GetFiles_init) = [] \<and>
   trace (snd (get_files V1_0_0 sample_env ''/nowhere'' ''mets'' GetFiles_init)) =
     [Printed (DoesNotExist ''/nowhere'')]"
proof -
  have l: "lookup sample_env ''/nowhere'' = None" by (simp add: sample_env_def)
  show ?thesis
    using get_files_missing_root [OF l, of V1_0_0 "''mets''" GetFiles_init] l
    by (simp add: GetFiles_init_def)
qed

text \<open>
  C9 as stated fails: called on a root that does not exist after a call that found a
  file, \<^verbatim>\<open>get_files\<close> returns that file.
\<close>

theorem get_files_missing_root_counterexample:
  "lookup sample_env ''/nowhere'' = None \<and>
   fst (get_files V1_0_0 sample_env ''/nowhere'' ''mets''
         (snd (get_files V1_0_0 sample_env ''/batch'' ''mets'' GetFiles_init))) =
     [''/batch/c_mets.xml'']"
  by (simp add: get_files_def sample_defs)

subsection \<open>\<^verbatim>\<open>validate_xml\<close> and \<^verbatim>\<open>write_errors\<close>, version 1.0.0\<close>

lemma validate_loop_spec:
  "\<forall>f \<in> set fs. parses E f \<and> engine_agrees E xsd f \<Longrightarrow>
   validate_loop E xsd fs d = (None, foldl store d (map (spec_result E xsd) fs))"
proof (induction fs arbitrary: d)
  case Nil
  show ?case by simp
next
  case (Cons f fs)
  from Cons.prems obtain doc where doc: "etree_parse E f = Parsed doc"
    by (auto simp: parses_def split: parsed.splits)
  from Cons.prems doc have agree:
    "fst (xsd_validate E xsd doc) = (filter invalidating (snd (xsd_validate E xsd doc)) = [])"
    by (simp add: engine_agrees_def)
  have step: "dict_set d (basename f)
      (if fst (xsd_validate E xsd doc) then ''valid'' else ''invalid'', snd (xsd_validate E xsd doc)) =
      store d (spec_result E xsd f)"
    using agree by (simp add: store_def spec_result_def spec_status_def doc)
  show ?case
    using Cons.IH [of "store d (spec_result E xsd f)"] Cons.prems step
    by (simp add: doc case_prod_unfold Let_def)
qed

lemma dict_set_fresh: "k \<notin> fst ` set d \<Longrightarrow> dict_set d k v = d @ [(k, v)]"
  by (induction d) auto

lemma foldl_store_distinct:
  "distinct (map fst rs) \<Longrightarrow> fst ` set rs \<inter> fst ` set d = {} \<Longrightarrow> foldl store d rs = d @ rs"
proof (induction rs arbitrary: d)
  case Nil
  show ?case by simp
next
  case (Cons r rs)
  have "store d r = d @ [r]"
    using Cons.prems(2) by (simp add: store_def dict_set_fresh)
  moreover have "fst ` set rs \<inter> fst ` set (d @ [r]) = {}"
    using Cons.prems by auto
  ultimately show ?case using Cons.IH [of "d @ [r]"] Cons.prems(1) by simp
qed

lemma fst_spec_result: "fst (spec_result E xsd f) = basename f"
  by (simp add: spec_result_def split: parsed.splits)

text \<open>
  With an engine that agrees with its log on every file of a batch in which every file
  parses, the results are those of the specification, stored one after the other; when
  the base filenames differ, they are the results of the files, in the order of the
  files.
\<close>

lemma validate_xml_agreeing_engine:
  assumes "etree_parse E schemaf = Parsed sdoc" and "XMLSchema E sdoc = Some xsd"
    and "\<forall>f \<in> set fs. parses E f \<and> engine_agrees E xsd f"
  shows "validate_xml E fs schemaf = Returned (foldl store [] (map (spec_result E xsd) fs)) \<and>
         (distinct (map basename fs) \<longrightarrow>
            validate_xml E fs schemaf = Returned (map (spec_result E xsd) fs))"
proof -
  have r: "validate_xml E fs schemaf = Returned (foldl store [] (map (spec_result E xsd) fs))"
    using assms by (simp add: validate_xml_def try_block_def validate_loop_spec)
  have "foldl store [] (map (spec_result E xsd) fs) = map (spec_result E xsd) fs"
    if "distinct (map basename fs)"
  proof -
    have "map fst (map (spec_result E xsd) fs) = map basename fs"
      by (simp add: fst_spec_result comp_def)
    then have "distinct (map fst (map (spec_result E xsd) fs))" using that by (simp only:)
    then show ?thesis using foldl_store_distinct [of "map (spec_result E xsd) fs" "[]"] by simp
  qed
  then show ?thesis using r by simp
qed






lemma dict_set_set: "set (dict_set d k v) \<subseteq> insert (k, v) (set d)"
  by (induction d) (auto split: if_splits)

lemma validate_loop_states:
  "\<forall>r \<in> set d. fst (snd r) = ''valid'' \<or> fst (snd r) = ''invalid'' \<Longrightarrow>
   \<forall>r \<in> set (snd (validate_loop E xsd fs d)). fst (snd r) = ''valid'' \<or> fst (snd r) = ''invalid''"
proof (induction fs arbitrary: d)
  case Nil
  then show ?case by simp
next
  case (Cons f fs)
  show ?case
  proof (cases "etree_parse E f")
    case IOFail
    then show ?thesis using Cons.prems by simp
  next
    case SyntaxFail
    then show ?thesis using Cons.prems by simp
  next
    case (Parsed doc)
    let ?st = "if fst (xsd_validate E xsd doc) then ''valid'' else ''invalid''"
    let ?d = "dict_set d (basename f) (?st, snd (xsd_validate E xsd doc))"
    have "\<forall>r \<in> set ?d. fst (snd r) = ''valid'' \<or> fst (snd r) = ''invalid''"
    proof
      fix r assume "r \<in> set ?d"
      then have "r = (basename f, ?st, snd (xsd_validate E xsd doc)) \<or> r \<in> set d"
        using dict_set_set [of d "basename f" "(?st, snd (xsd_validate E xsd doc))"] by blast
      then show "fst (snd r) = ''valid'' \<or> fst (snd r) = ''invalid''"
        using Cons.prems by (cases "fst (xsd_validate E xsd doc)") auto
    qed
    from Cons.IH [OF this] show ?thesis
      by (simp add: Parsed case_prod_unfold Let_def)
  qed
qed

lemma validate_xml_states:
  assumes "validate_xml E fs schemaf = Returned d"
  shows "\<forall>r \<in> set d. fst (snd r) = ''valid'' \<or> fst (snd r) = ''invalid''"
proof -
  have "\<forall>r \<in> set (snd (try_block E fs schemaf)). fst (snd r) = ''valid'' \<or> fst (snd r) = ''invalid''"
    using validate_loop_states [of "[]" E _ fs]
    by (simp add: try_block_def split: parsed.splits option.splits)
  moreover have "d = snd (try_block E fs schemaf)"
    using assms by (auto simp: validate_xml_def split: prod.splits option.splits if_splits)
  ultimately show ?thesis by simp
qed

text \<open>
  C8. For the results of any call of \<^verbatim>\<open>validate_xml\<close>, none included, the rows
  written are the header \<^verbatim>\<open>filename,valid,error\<close> and then one row for every
  result, in order: the name, the status, which is \<open>valid\<close> or \<open>invalid\<close>, and
  the text of the log, which is empty for an empty log.
\<close>

theorem write_errors_rows:
  assumes "validate_xml E fs schemaf = Returned d"
    and "open_w E (output_file E path_batch ''.csv'')"
  shows "write_errors E d path_batch fs =
           Returned \<lparr>csv_name = output_file E path_batch ''.csv'',
                     csv_rows = header_row # map (csv_row E) d\<rparr> \<and>
         header_row = [''filename'', ''valid'', ''error''] \<and>
         (\<forall>r \<in> set d.
            csv_row E r = [fst r, fst (snd r), str_log E (snd (snd r))] \<and>
            (fst (snd r) = ''valid'' \<or> fst (snd r) = ''invalid'') \<and>
            (snd (snd r) = [] \<longrightarrow> str_log E (snd (snd r)) = []))"
proof -
  have "write_errors E d path_batch fs =
      Returned \<lparr>csv_name = output_file E path_batch ''.csv'',
                csv_rows = header_row # map (csv_row E) d\<rparr>"
    using assms(2) by (simp add: write_errors_def)
  moreover have "\<forall>r \<in> set d. fst (snd r) = ''valid'' \<or> fst (snd r) = ''invalid''"
    using validate_xml_states [OF assms(1)] .
  ultimately show ?thesis
    by (simp add: header_row_def csv_row_def str_log_def)
qed

text \<open>The report of two results.\<close>

theorem write_errors_rows_witness:
  "validate_xml sample_env [''/batch/c_mets.xml'', ''/batch/xml/a.xml''] ''/s.xsd'' =
     Returned [(''c_mets.xml'', ''valid'', []), (''a.xml'', ''invalid'', [sample_entry])] \<and>
   open_w sample_env (output_file sample_env ''/batch'' ''.csv'') \<and>
   write_errors sample_env
       [(''c_mets.xml'', ''valid'', []), (''a.xml'', ''invalid'', [sample_entry])] ''/batch''
       [''/batch/c_mets.xml'', ''/batch/xml/a.xml''] =
     Returned \<lparr>csv_name = ''./logs/validate_xml-batch-20200327_120000.csv'',
               csv_rows = [[''filename'', ''valid'', ''error''],
                           [''c_mets.xml'', ''valid'', []],
                           [''a.xml'', ''invalid'', ''Element b: not expected.'']]\<rparr>"
proof -
  have a: "validate_xml sample_env [''/batch/c_mets.xml'', ''/batch/xml/a.xml''] ''/s.xsd'' =
      Returned [(''c_mets.xml'', ''valid'', []), (''a.xml'', ''invalid'', [sample_entry])]"
    by (simp add: validate_xml_def try_block_def sample_env_def basename_def)
  have b: "open_w sample_env (output_file sample_env ''/batch'' ''.csv'')"
    by (simp add: sample_env_def)
  have c: "output_file sample_env ''/batch'' ''.csv'' = ''./logs/validate_xml-batch-20200327_120000.csv''"
    by (simp add: output_file_def sample_env_def basename_def join_def)
  have d: "map (csv_row sample_env)
        [(''c_mets.xml'', ''valid'', []), (''a.xml'', ''invalid'', [sample_entry])] =
      [[''c_mets.xml'', ''valid'', []], [''a.xml'', ''invalid'', ''Element b: not expected.'']]"
    by (simp add: csv_row_def str_log_def sample_env_def sample_entry_def)
  show ?thesis
    using write_errors_rows [OF a b] a b c d by simp
qed

text \<open>Without results the report holds the header alone.\<close>

lemma write_errors_no_results:
  "open_w E (output_file E path_batch ''.csv'') \<Longrightarrow>
   write_errors E [] path_batch fs =
     Returned \<lparr>csv_name = output_file E path_batch ''.csv'', csv_rows = [header_row]\<rparr>"
  by (simp add: write_errors_def)

subsection \<open>Bad files and schemas that do not load\<close>

lemma validate_loop_not_well_formed:
  "\<forall>f \<in> set pre. parses E f \<Longrightarrow> etree_parse E bad = SyntaxFail \<Longrightarrow>
   fst (validate_loop E xsd (pre @ bad # post) d) = Some XMLSyntaxError"
proof (induction pre arbitrary: d)
  case Nil
  then show ?case by simp
next
  case (Cons f pre)
  from Cons.prems obtain doc where "etree_parse E f = Parsed doc"
    by (auto simp: parses_def split: parsed.splits)
  then show ?case using Cons by (simp add: case_prod_unfold Let_def)
qed

text \<open>
  C1, as the code has it. \<^verbatim>\<open>validate_xml\<close> has no recovery for a single file and
  no status \<open>unreadable\<close>: when the schema loads and the files before it parse, a
  file that is not well-formed makes \<^verbatim>\<open>validate_xml\<close> raise
  \<^verbatim>\<open>XMLSyntaxError\<close>, whatever files follow; no result is returned for any file,
  and the run that meets such a list of files ends with that exception, before
  \<^verbatim>\<open>write_errors\<close>.
\<close>

theorem validate_xml_not_well_formed:
  assumes "etree_parse E schemaf = Parsed sdoc" and "XMLSchema E sdoc = Some xsd"
    and "\<forall>f \<in> set pre. parses E f" and "etree_parse E bad = SyntaxFail"
  shows "validate_xml E (pre @ bad # post) schemaf = Raised XMLSyntaxError \<and>
         (files (snd (get_files V1_0_0 E var re1 g)) = pre @ bad # post \<longrightarrow>
            fst (MainApplication_validate E var re1 schemaf g) = Raised XMLSyntaxError)"
proof -
  have "fst (try_block E (pre @ bad # post) schemaf) = Some XMLSyntaxError"
    using assms by (simp add: try_block_def validate_loop_not_well_formed)
  then have "validate_xml E (pre @ bad # post) schemaf = Raised XMLSyntaxError"
    by (cases "try_block E (pre @ bad # post) schemaf") (simp add: validate_xml_def)
  then show ?thesis by (simp add: MainApplication_validate_def Let_def)
qed

text \<open>The run over the small world with the pattern \<^verbatim>\<open>xml\<close>.\<close>

theorem validate_xml_not_well_formed_witness:
  "etree_parse sample_env ''/s.xsd'' = Parsed ''schema'' \<and>
   XMLSchema sample_env ''schema'' = Some ''xsd'' \<and>
   parses sample_env ''/batch/a.xml'' \<and>
   parses sample_env ''/batch/c_mets.xml'' \<and>
   etree_parse sample_env ''/batch/broken.xml'' = SyntaxFail \<and>
   files (snd (get_files V1_0_0 sample_env ''/batch'' ''xml'' GetFiles_init)) =
     [''/batch/a.xml'', ''/batch/c_mets.xml''] @ ''/batch/broken.xml'' # [''/batch/xml/a.xml''] \<and>
   validate_xml sample_env
     ([''/batch/a.xml'', ''/batch/c_mets.xml''] @ ''/batch/broken.xml'' # [''/batch/xml/a.xml''])
     ''/s.xsd'' = Raised XMLSyntaxError \<and>
   fst (MainApplication_validate sample_env ''/batch'' ''xml'' ''/s.xsd'' GetFiles_init) =
     Raised XMLSyntaxError"
proof -
  have a: "etree_parse sample_env ''/s.xsd'' = Parsed ''schema''" by (simp add: sample_env_def)
  have b: "XMLSchema sample_env ''schema'' = Some ''xsd''" by (simp add: sample_env_def)
  have c: "\<forall>f \<in> set [''/batch/a.xml'', ''/batch/c_mets.xml'']. parses sample_env f"
    by (simp add: sample_env_def parses_def)
  have d: "etree_parse sample_env ''/batch/broken.xml'' = SyntaxFail" by (simp add: sample_env_def)
  have e: "files (snd (get_files V1_0_0 sample_env ''/batch'' ''xml'' GetFiles_init)) =
      [''/batch/a.xml'', ''/batch/c_mets.xml''] @ ''/batch/broken.xml'' # [''/batch/xml/a.xml'']"
    by (simp add: get_files_def sample_defs)
  show ?thesis
    using validate_xml_not_well_formed [OF a b c d, of "[''/batch/xml/a.xml'']" "''/batch''" "''xml''" GetFiles_init]
      a b c d e
    by simp
qed

text \<open>
  C1 as stated fails: with a file that is not well-formed first in the list,
  \<^verbatim>\<open>validate_xml\<close> raises, and the file after it is not processed.
\<close>

theorem validate_xml_bad_file_counterexample:
  "etree_parse sample_env ''/batch/broken.xml'' = SyntaxFail \<and>
   validate_xml sample_env [''/batch/broken.xml'', ''/batch/a.xml''] ''/s.xsd'' =
     Raised XMLSyntaxError"
  by (simp add: validate_xml_def try_block_def sample_env_def)

text \<open>
  A file that cannot be read raises \<^verbatim>\<open>OSError\<close> inside the \<^verbatim>\<open>try\<close> block that
  was written for the schema: the loop ends there and the results so far are returned.
\<close>

lemma validate_xml_unreadable_file_example:
  "validate_xml sample_env [''/batch/a.xml'', ''/batch/gone.xml'', ''/batch/c_mets.xml''] ''/s.xsd'' =
     Returned [(''a.xml'', ''valid'', [])]"
  by (simp add: validate_xml_def try_block_def basename_def sample_env_def)

text \<open>
  C2, as the code has it. A schema file that cannot be read is an \<^verbatim>\<open>OSError\<close>,
  which \<^verbatim>\<open>validate_xml\<close> catches: it returns no result, the run goes on and
  \<^verbatim>\<open>write_errors\<close> writes a report that holds the header row alone. A schema
  file that is not well-formed, or that is no schema, raises
  \<^verbatim>\<open>XMLSyntaxError\<close> or \<^verbatim>\<open>XMLSchemaParseError\<close>: no result is produced, the
  run ends with the exception and nothing is written.
\<close>

theorem schema_not_loaded:
  "(etree_parse E sch_loc = IOFail \<and> open_w E (output_file E var ''.csv'') \<longrightarrow>
      validate_xml E fs sch_loc = Returned [] \<and>
      fst (MainApplication_validate E var re1 sch_loc g) =
        Returned \<lparr>csv_name = output_file E var ''.csv'', csv_rows = [header_row]\<rparr>) \<and>
   (etree_parse E sch_loc = SyntaxFail \<longrightarrow>
      validate_xml E fs sch_loc = Raised XMLSyntaxError \<and>
      fst (MainApplication_validate E var re1 sch_loc g) = Raised XMLSyntaxError) \<and>
   (etree_parse E sch_loc = Parsed sdoc \<and> XMLSchema E sdoc = None \<longrightarrow>
      validate_xml E fs sch_loc = Raised XMLSchemaParseError \<and>
      fst (MainApplication_validate E var re1 sch_loc g) = Raised XMLSchemaParseError)"
  by (simp add: MainApplication_validate_def validate_xml_def try_block_def write_errors_def Let_def)

text \<open>A missing schema, a torn one, and a document that is no schema.\<close>

theorem schema_not_loaded_witness:
  "etree_parse sample_env ''/missing.xsd'' = IOFail \<and>
   open_w sample_env (output_file sample_env ''/batch'' ''.csv'') \<and>
   fst (MainApplication_validate sample_env ''/batch'' ''mets'' ''/missing.xsd'' GetFiles_init) =
     Returned \<lparr>csv_name = ''./logs/validate_xml-batch-20200327_120000.csv'',
               csv_rows = [[''filename'', ''valid'', ''error'']]\<rparr> \<and>
   etree_parse sample_env ''/torn.xsd'' = SyntaxFail \<and>
   fst (MainApplication_validate sample_env ''/batch'' ''mets'' ''/torn.xsd'' GetFiles_init) =
     Raised XMLSyntaxError \<and>
   etree_parse sample_env ''/notes.xml'' = Parsed ''letter'' \<and>
   XMLSchema sample_env ''letter'' = None \<and>
   fst (MainApplication_validate sample_env ''/batch'' ''mets'' ''/notes.xml'' GetFiles_init) =
     Raised XMLSchemaParseError"
proof -
  have a: "etree_parse sample_env ''/missing.xsd'' = IOFail" by (simp add: sample_env_def)
  have b: "open_w sample_env (output_file sample_env ''/batch'' ''.csv'')"
    by (simp add: sample_env_def)
  have c: "output_file sample_env ''/batch'' ''.csv'' = ''./logs/validate_xml-batch-20200327_120000.csv''"
    by (simp add: output_file_def sample_env_def basename_def join_def)
  have d: "etree_parse sample_env ''/torn.xsd'' = SyntaxFail" by (simp add: sample_env_def)
  have e: "etree_parse sample_env ''/notes.xml'' = Parsed ''letter''" by (simp add: sample_env_def)
  have f: "XMLSchema sample_env ''letter'' = None" by (simp add: sample_env_def)
  show ?thesis
    using schema_not_loaded [of sample_env "''/missing.xsd''" "''/batch''" "[]" "''mets''" GetFiles_init]
      schema_not_loaded [of sample_env "''/torn.xsd''" "''/batch''" "[]" "''mets''" GetFiles_init]
      schema_not_loaded [of sample_env "''/notes.xml''" "''/batch''" "[]" "''mets''" GetFiles_init "''letter''"]
      a b c d e f
    by (simp add: header_row_def)
qed

text \<open>
  C2 as stated fails: with a schema path that names no file the run does not abort,
  and a report is written.
\<close>

theorem schema_not_loaded_counterexample:
  "etree_parse sample_env ''/absent.xsd'' = IOFail \<and>
   fst (MainApplication_validate sample_env ''/batch'' ''xml'' ''/absent.xsd'' GetFiles_init) =
     Returned \<lparr>csv_name = ''./logs/validate_xml-batch-20200327_120000.csv'',
               csv_rows = [[''filename'', ''valid'', ''error'']]\<rparr>"
  by (simp add: MainApplication_validate_def get_files_def validate_xml_def try_block_def
      write_errors_def output_file_def header_row_def basename_def sample_defs)

subsection \<open>One result per file\<close>

text \<open>
  C5. The dictionary of version 1.0.0 is keyed by the base filename. The two files
  \<^verbatim>\<open>/batch/a.xml\<close> (valid) and \<^verbatim>\<open>/batch/xml/a.xml\<close> (invalid) are both found
  and both validated, and the report has one row for them: the result of the second
  has replaced that of the first.
\<close>

theorem same_basename_one_row:
  "fst (get_files V1_0_0 sample_env ''/batch'' ''a'' GetFiles_init) =
     [''/batch/a.xml'', ''/batch/xml/a.xml''] \<and>
   fst (MainApplication_validate sample_env ''/batch'' ''a'' ''/s.xsd'' GetFiles_init) =
     Returned \<lparr>csv_name = ''./logs/validate_xml-batch-20200327_120000.csv'',
               csv_rows = [[''filename'', ''valid'', ''error''],
                           [''a.xml'', ''invalid'', ''Element b: not expected.'']]\<rparr>"
  by (simp add: MainApplication_validate_def get_files_def validate_xml_def try_block_def
      write_errors_def output_file_def header_row_def csv_row_def str_log_def basename_def
      sample_entry_def sample_defs)

subsection \<open>The closing lines of the text report, version 0.0.4\<close>

text \<open>Version 0.0.4 keeps one log per file, empty or not.\<close>

lemma validate_loop_0_0_4_length:
  "\<forall>f \<in> set fs. parses E f \<Longrightarrow>
   fst (validate_loop_0_0_4 E xsd fs l) = None \<and>
   length (snd (validate_loop_0_0_4 E xsd fs l)) = length l + length fs"
proof (induction fs arbitrary: l)
  case Nil
  show ?case by simp
next
  case (Cons f fs)
  from Cons.prems obtain doc where "etree_parse E f = Parsed doc"
    by (auto simp: parses_def split: parsed.splits)
  then show ?case using Cons by simp
qed

text \<open>
  Hence, in a run where every file parses, the report counts no file as validated
  successfully and every file as an error, whatever the logs hold.
\<close>

lemma summary_of_a_complete_run:
  assumes "etree_parse E xsdschema = Parsed sdoc" and "XMLSchema E sdoc = Some xsd"
    and "\<forall>f \<in> set fs. parses E f"
    and "validate_xml_0_0_4 E fs xsdschema = Returned l"
    and "write_errors_0_0_4 E l path_batch fs = Returned r"
  shows "validated_succesfully r = 0 \<and> validation_errors_count r = int (length fs)"
proof -
  have "try_block_0_0_4 E fs xsdschema = validate_loop_0_0_4 E xsd fs []"
    using assms(1,2) by (simp add: try_block_0_0_4_def)
  then have "l = snd (validate_loop_0_0_4 E xsd fs [])"
    using assms(4) by (auto simp: validate_xml_0_0_4_def split: prod.splits option.splits if_splits)
  then have "length l = length fs"
    using validate_loop_0_0_4_length [OF assms(3), of xsd "[]"] by simp
  then show ?thesis
    using assms(5) by (auto simp: write_errors_0_0_4_def split: if_splits)
qed

text \<open>
  C6. One file, valid against the schema, with an empty log: the report of version
  0.0.4 says \<^verbatim>\<open>Validated succesfully: 0\<close> and \<^verbatim>\<open>Validation errors: 1\<close>. The source
  marks the computation with the comment \<^verbatim>\<open>TODO: This calc doesn't work yet\<close>.
\<close>

theorem summary_counts_0_0_4:
  "validate_xml_0_0_4 sample_env [''/batch/c_mets.xml''] ''/s.xsd'' = Returned [[]] \<and>
   fst (MainApplication_validate_0_0_4 sample_env ''/batch'' ''mets'' ''/s.xsd'' GetFiles_init) =
     Returned \<lparr>txt_name = ''./logs/validate_xml-batch-20200327_120000.txt'',
               banner = ''[validate_xml log generated 20200327T12:00:00]'' @ [CHR 0x0A, CHR 0x0A],
               blocks = [],
               validated_succesfully = 0,
               validation_errors_count = 1\<rparr>"
  by (simp add: MainApplication_validate_0_0_4_def get_files_def validate_xml_0_0_4_def
      try_block_0_0_4_def write_errors_0_0_4_def output_file_def str_log_def basename_def
      sample_defs)

end
